theory Spec2Isabelle
  imports Main
begin

section \<open>Arbitrary-precision integers\<close>

text \<open>
  The group code of \<^verbatim>\<open>crypto/groups/schnorr.go\<close> computes with Go's \<^verbatim>\<open>*big.Int\<close>.
  A \<^verbatim>\<open>big.Int\<close> is an unbounded integer, so its values are HOL's \<^typ>\<open>int\<close>. The
  operations of \<^verbatim>\<open>math/big\<close> that the group code calls are modelled below from their
  documented behaviour. Two things can go wrong in them, and both are values of the
  model:
  \<^item> \<^verbatim>\<open>Mod\<close> panics with a division by zero when the modulus is zero;
  \<^item> \<^verbatim>\<open>ModInverse\<close> (and \<^verbatim>\<open>Exp\<close> with a negative exponent) returns the nil
    pointer when no inverse exists. The group code never tests for nil: every later
    use of such a result (\<^verbatim>\<open>Mul\<close>, \<^verbatim>\<open>Cmp\<close>) dereferences it and panics, so a nil
    result is carried along as a fault.
  The arguments of the group's methods are taken to be non-nil integers.
\<close>

datatype fault = DivisionByZero | NilInt

text \<open>Sequencing of calls: the first fault ends the computation.\<close>

definition andThen :: "fault + 'a \<Rightarrow> ('a \<Rightarrow> fault + 'b) \<Rightarrow> fault + 'b" where
  "andThen r f = (case r of Inl e \<Rightarrow> Inl e | Inr v \<Rightarrow> f v)"

text \<open>
  \<^verbatim>\<open>Mod\<close> is the Euclidean modulus: for a non-zero modulus \<open>y\<close> the result lies in
  \<open>[0, |y|)\<close>, whatever the signs of \<open>x\<close> and \<open>y\<close>.
\<close>

definition big_Mod :: "int \<Rightarrow> int \<Rightarrow> fault + int" where
  "big_Mod x y = (if y = 0 then Inl DivisionByZero else Inr (x mod \<bar>y\<bar>))"

text \<open>
  \<^verbatim>\<open>GCD\<close> returns the greatest common divisor \<open>d\<close> of \<open>a\<close> and \<open>b\<close> together with
  cofactors \<open>x\<close>, \<open>y\<close> such that \<open>d = a * x + b * y\<close>; for \<open>b = 0\<close> it returns
  \<open>d = |a|\<close>, \<open>x = sign a\<close>, \<open>y = 0\<close>. The cofactors are computed here by the
  extended Euclidean algorithm.
\<close>

function big_GCD :: "int \<Rightarrow> int \<Rightarrow> int \<times> int \<times> int" where
  "big_GCD a b =
     (if b = 0 then (\<bar>a\<bar>, sgn a, 0)
      else (case big_GCD b (a mod b) of (d, x, y) \<Rightarrow> (d, y, x - (a div b) * y)))"
  by pat_completeness auto
termination
  by (relation "measure (\<lambda>(a, b). nat \<bar>b\<bar>)") (auto simp: abs_mod_less)

declare big_GCD.simps [simp del]

text \<open>
  \<^verbatim>\<open>ModInverse(g, n)\<close>: the sign of \<open>n\<close> is dropped, a negative \<open>g\<close> is first reduced
  with \<^verbatim>\<open>Mod\<close> (which panics for \<open>n = 0\<close>), and the cofactor of \<open>g\<close> in the gcd of
  \<open>g\<close> and \<open>n\<close> is the inverse, brought into the range \<open>[0, |n|)\<close>. When \<open>g\<close> and \<open>n\<close>
  are not relatively prime the result is nil.
\<close>

definition big_ModInverse :: "int \<Rightarrow> int \<Rightarrow> fault + int" where
  "big_ModInverse g n =
     (let n' = \<bar>n\<bar> in
      andThen (if g < 0 then big_Mod g n' else Inr g) (\<lambda>g'.
        case big_GCD g' n' of (d, x, y) \<Rightarrow>
          if d \<noteq> 1 then Inl NilInt else Inr (x mod n')))"

text \<open>
  \<^verbatim>\<open>Exp(x, y, m)\<close> is \<open>x ** y mod |m|\<close>; for \<open>m = 0\<close> it is \<open>x ** y\<close>, except that a
  negative \<open>y\<close> then gives 1. For \<open>m \<noteq> 0\<close> and \<open>y < 0\<close> it is the \<open>|y|\<close>-th power of
  the inverse of \<open>x\<close>, and nil when \<open>x\<close> has no inverse.
\<close>

definition big_Exp :: "int \<Rightarrow> int \<Rightarrow> int \<Rightarrow> fault + int" where
  "big_Exp x y m =
     (if y < 0 then
        (if m = 0 then Inr 1
         else andThen (big_ModInverse x m) (\<lambda>inv. Inr (inv ^ nat (- y) mod \<bar>m\<bar>)))
      else if m = 0 then Inr (x ^ nat y)
      else Inr (x ^ nat y mod \<bar>m\<bar>))"

section \<open>The Schnorr group\<close>

text \<open>
  \<^verbatim>\<open>type SchnorrGroup struct { P, G, Q *big.Int }\<close>: the modulus, the generator of
  the subgroup and the order of the generator.
\<close>

record SchnorrGroup =
  P :: int
  G :: int
  Q :: int

subsection \<open>Construction\<close>

text \<open>
  \<^verbatim>\<open>dsa.ParameterSizes\<close> and \<^verbatim>\<open>dsa.GenerateParameters\<close> belong to Go's standard
  library. The generator draws random primes; it is a parameter \<open>gen\<close> of the model,
  which answers with an error message or with the triple \<open>(P, Q, G)\<close> of the generated
  \<^verbatim>\<open>dsa.Parameters\<close>.
\<close>

datatype ParameterSizes = L1024N160 | L2048N224 | L2048N256 | L3072N256

datatype error =
    NotSupported int  \<comment> \<open>"generating Schnorr primes for bit length %d is not supported"\<close>
  | GenerateParametersError string

type_synonym GenerateParameters = "ParameterSizes \<Rightarrow> string + (int \<times> int \<times> int)"

text \<open>
  \<^verbatim>\<open>NewSchnorrGroup\<close> returns the pair \<^verbatim>\<open>(*SchnorrGroup, error)\<close>; a nil component is
  \<open>None\<close>. The argument is a Go \<^verbatim>\<open>int\<close> that is only compared with constants.
\<close>

definition NewSchnorrGroup ::
  "GenerateParameters \<Rightarrow> int \<Rightarrow> SchnorrGroup option \<times> error option" where
  "NewSchnorrGroup gen qBitLength =
     (let generate = (\<lambda>sizes.
            case gen sizes of
              Inl err \<Rightarrow> (None, Some (GenerateParametersError err))
            | Inr (p, q, g) \<Rightarrow> (Some \<lparr>P = p, G = g, Q = q\<rparr>, None))
      in if qBitLength = 160 then generate L1024N160
         else if qBitLength = 224 then generate L2048N224
         else if qBitLength = 256 then generate L2048N256
         else (None, Some (NotSupported qBitLength)))"

definition NewSchnorrGroupFromParams :: "int \<Rightarrow> int \<Rightarrow> int \<Rightarrow> SchnorrGroup" where
  "NewSchnorrGroupFromParams p g q = \<lparr>P = p, G = g, Q = q\<rparr>"

subsection \<open>Group operations\<close>

definition Add :: "SchnorrGroup \<Rightarrow> int \<Rightarrow> int \<Rightarrow> fault + int" where
  "Add grp x y = (let r = x + y in big_Mod r (P grp))"

definition Mul :: "SchnorrGroup \<Rightarrow> int \<Rightarrow> int \<Rightarrow> fault + int" where
  "Mul grp x y = (let r = x * y in big_Mod r (P grp))"

definition Inv :: "SchnorrGroup \<Rightarrow> int \<Rightarrow> fault + int" where
  "Inv grp x = big_ModInverse x (P grp)"

definition Exp :: "SchnorrGroup \<Rightarrow> int \<Rightarrow> int \<Rightarrow> fault + int" where
  "Exp grp base exponent =
     (if sgn exponent = - 1 then
        (let expAbs = \<bar>exponent\<bar> in
         andThen (big_Exp base expAbs (P grp)) (\<lambda>t. Inv grp t))
      else big_Exp base exponent (P grp))"

definition IsElementInGroup :: "SchnorrGroup \<Rightarrow> int \<Rightarrow> fault + bool" where
  "IsElementInGroup grp x =
     andThen (Exp grp x (Q grp)) (\<lambda>check. Inr (check = 1))"

text \<open>
  Modelled from the spec: \<^verbatim>\<open>common.GetRandomInt\<close> is not among the sources. The spec
  says that the random element is built from a uniform exponent \<open>r\<close> drawn from
  \<open>[0, Q)\<close>; the drawn exponent is the parameter \<open>r\<close> of the model.
\<close>

definition GetRandomElement :: "SchnorrGroup \<Rightarrow> int \<Rightarrow> fault + int" where
  "GetRandomElement grp r = (let el = Exp grp (G grp) r in el)"

text \<open>The chain \<^verbatim>\<open>Mul(Exp(b, e), Exp(b, -e))\<close> and the chain \<^verbatim>\<open>Mul(x, Inv(x))\<close>.\<close>

definition MulExpExp :: "SchnorrGroup \<Rightarrow> int \<Rightarrow> int \<Rightarrow> fault + int" where
  "MulExpExp grp b e =
     andThen (Exp grp b e) (\<lambda>u. andThen (Exp grp b (- e)) (\<lambda>v. Mul grp u v))"

definition MulInv :: "SchnorrGroup \<Rightarrow> int \<Rightarrow> fault + int" where
  "MulInv grp x = andThen (Inv grp x) (\<lambda>y. Mul grp x y)"

section \<open>Properties of the integer operations\<close>

text \<open>
  The extended Euclidean algorithm returns the greatest common divisor and cofactors
  that satisfy Bezout's identity.
\<close>

lemma big_GCD_correct:
  "big_GCD a b = (d, x, y) \<Longrightarrow> d = gcd a b \<and> a * x + b * y = d"
proof (induction a b arbitrary: d x y rule: big_GCD.induct)
  case (1 a b)
  show ?case
  proof (cases "b = 0")
    case True
    with "1.prems" have "d = \<bar>a\<bar>" "x = sgn a" "y = 0"
      by (simp_all add: big_GCD.simps [of a 0])
    with True show ?thesis
      by (simp add: abs_sgn)
  next
    case False
    obtain d' x' y' where rec: "big_GCD b (a mod b) = (d', x', y')"
      by (cases "big_GCD b (a mod b)") auto
    from "1.IH" [OF False rec] have d': "d' = gcd b (a mod b)"
      and bez: "b * x' + (a mod b) * y' = d'"
      by simp_all
    from "1.prems" False rec have res: "d = d'" "x = y'" "y = x' - (a div b) * y'"
      by (auto simp add: big_GCD.simps [of a b])
    have "gcd a b = gcd b (a mod b)"
      by (rule gcd_red_int)
    moreover have "a * y' + b * (x' - (a div b) * y') = b * x' + (a mod b) * y'"
      by (simp add: algebra_simps flip: minus_mult_div_eq_mod) 
    ultimately show ?thesis
      using d' bez res by simp
  qed
qed

lemma gcd_mod_abs: "gcd (g mod \<bar>n\<bar>) n = gcd g (n::int)"
  using gcd_red_int [of g "\<bar>n\<bar>"] by (simp add: gcd.commute)

lemma big_ModInverse_not_coprime:
  assumes "gcd g n \<noteq> 1"
  shows "big_ModInverse g n = Inl (if n = 0 \<and> g < 0 then DivisionByZero else NilInt)"
proof (cases "g < 0")
  case neg: True
  show ?thesis
  proof (cases "n = 0")
    case True
    with neg show ?thesis
      by (simp add: big_ModInverse_def big_Mod_def andThen_def)
  next
    case False
    obtain d x y where r: "big_GCD (g mod \<bar>n\<bar>) \<bar>n\<bar> = (d, x, y)"
      by (cases "big_GCD (g mod \<bar>n\<bar>) \<bar>n\<bar>") auto
    have "d = gcd (g mod \<bar>n\<bar>) \<bar>n\<bar>"
      using big_GCD_correct [OF r] by simp
    also have "\<dots> = gcd g n"
      by (simp add: gcd_mod_abs)
    finally have "d \<noteq> 1"
      using assms by simp
    with neg False r show ?thesis
      by (simp add: big_ModInverse_def big_Mod_def andThen_def)
  qed
next
  case nonneg: False
  obtain d x y where r: "big_GCD g \<bar>n\<bar> = (d, x, y)"
    by (cases "big_GCD g \<bar>n\<bar>") auto
  have "d = gcd g n"
    using big_GCD_correct [OF r] by simp
  with assms have "d \<noteq> 1"
    by simp
  with nonneg r show ?thesis
    by (simp add: big_ModInverse_def andThen_def)
qed

lemma big_ModInverse_coprime:
  assumes n: "n \<noteq> 0" and cop: "gcd g n = 1"
  shows "\<exists>z. big_ModInverse g n = Inr z \<and> 0 \<le> z \<and> z < \<bar>n\<bar> \<and> g * z mod \<bar>n\<bar> = 1 mod \<bar>n\<bar>"
proof -
  define g' where "g' = (if g < 0 then g mod \<bar>n\<bar> else g)"
  obtain d x y where r: "big_GCD g' \<bar>n\<bar> = (d, x, y)"
    by (cases "big_GCD g' \<bar>n\<bar>") auto
  have g'_mod: "g' mod \<bar>n\<bar> = g mod \<bar>n\<bar>"
    by (simp add: g'_def)
  have "gcd g' \<bar>n\<bar> = gcd g n"
    by (simp add: g'_def gcd_mod_abs)
  with big_GCD_correct [OF r] cop have d: "d = 1" and bez: "g' * x + \<bar>n\<bar> * y = 1"
    by simp_all
  have inv: "big_ModInverse g n = Inr (x mod \<bar>n\<bar>)"
    using n r d
    by (cases "g < 0") (simp_all add: big_ModInverse_def Let_def big_Mod_def andThen_def g'_def)
  have "g * (x mod \<bar>n\<bar>) mod \<bar>n\<bar> = (g mod \<bar>n\<bar>) * x mod \<bar>n\<bar>"
    by (simp add: mod_simps)
  also have "\<dots> = g' * x mod \<bar>n\<bar>"
    by (metis g'_mod mod_mult_left_eq)
  also have "\<dots> = (g' * x + \<bar>n\<bar> * y) mod \<bar>n\<bar>"
    by simp
  finally have "g * (x mod \<bar>n\<bar>) mod \<bar>n\<bar> = 1 mod \<bar>n\<bar>"
    using bez by simp
  with inv n show ?thesis
    by simp
qed

section \<open>Unfolding the group operations\<close>

lemma big_Exp_nonneg:
  "0 \<le> y \<Longrightarrow> big_Exp x y m = Inr (x ^ nat y mod \<bar>m\<bar>)"
  by (simp add: big_Exp_def)

lemma Exp_nonneg:
  "0 \<le> e \<Longrightarrow> Exp grp b e = Inr (b ^ nat e mod \<bar>P grp\<bar>)"
  by (simp add: Exp_def big_Exp_nonneg sgn_if)

lemma Exp_neg:
  "e < 0 \<Longrightarrow> Exp grp b e = Inv grp (b ^ nat (- e) mod \<bar>P grp\<bar>)"
  by (simp add: Exp_def big_Exp_nonneg andThen_def)

lemma Inv_coprime:
  assumes "P grp \<noteq> 0" and "gcd x (P grp) = 1"
  shows "\<exists>z. Inv grp x = Inr z \<and> 0 \<le> z \<and> z < \<bar>P grp\<bar> \<and>
             x * z mod \<bar>P grp\<bar> = 1 mod \<bar>P grp\<bar>"
  unfolding Inv_def using assms by (rule big_ModInverse_coprime)

section \<open>Construction of groups\<close>

text \<open>
  Claim C8. \<^verbatim>\<open>NewSchnorrGroupFromParams\<close> checks nothing and cannot fail: for all
  integers \<open>p\<close>, \<open>g\<close>, \<open>q\<close> (prime or not, of the right order or not) it returns the
  group whose fields \<open>P\<close>, \<open>G\<close>, \<open>Q\<close> are exactly the given values.
\<close>

theorem NewSchnorrGroupFromParams_fields:
  "P (NewSchnorrGroupFromParams p g q) = p \<and>
   G (NewSchnorrGroupFromParams p g q) = g \<and>
   Q (NewSchnorrGroupFromParams p g q) = q"
  by (simp add: NewSchnorrGroupFromParams_def)

text \<open>
  Claim C7. For every bit length other than 160, 224 and 256, \<^verbatim>\<open>NewSchnorrGroup\<close>
  returns the not-supported error for that bit length and no group, whatever the
  parameter generator would have answered.
\<close>

theorem NewSchnorrGroup_unsupported:
  assumes "qBitLength \<notin> {160, 224, 256}"
  shows "NewSchnorrGroup gen qBitLength = (None, Some (NotSupported qBitLength))"
  using assms by (simp add: NewSchnorrGroup_def)

theorem NewSchnorrGroup_unsupported_witness:
  "(100::int) \<notin> {160, 224, 256} \<and>
   NewSchnorrGroup (\<lambda>sizes. Inr (23, 11, 2)) 100 = (None, Some (NotSupported 100))"
  using NewSchnorrGroup_unsupported [of 100 "\<lambda>sizes. Inr (23, 11, 2)"] by simp

section \<open>Addition and multiplication\<close>

text \<open>
  Claim C10. For a group with modulus \<open>P > 0\<close> and all integers \<open>x\<close>, \<open>y\<close>, negative
  or larger than \<open>P\<close> included, \<^verbatim>\<open>Add\<close> and \<^verbatim>\<open>Mul\<close> return the canonical
  representative of the sum and of the product: an integer in \<open>[0, P)\<close>.
\<close>

theorem Add_Mul_canonical:
  assumes "0 < P grp"
  shows "Add grp x y = Inr ((x + y) mod P grp) \<and> Mul grp x y = Inr (x * y mod P grp) \<and>
         0 \<le> (x + y) mod P grp \<and> (x + y) mod P grp < P grp \<and>
         0 \<le> x * y mod P grp \<and> x * y mod P grp < P grp"
  using assms by (simp add: Add_def Mul_def big_Mod_def)

theorem Add_Mul_canonical_witness:
  "0 < P \<lparr>P = 7, G = 2, Q = 3\<rparr> \<and>
   Add \<lparr>P = 7, G = 2, Q = 3\<rparr> (- 10) 23 = Inr 6 \<and>
   Mul \<lparr>P = 7, G = 2, Q = 3\<rparr> (- 10) 23 = Inr 1"
  using Add_Mul_canonical [of "\<lparr>P = 7, G = 2, Q = 3\<rparr>" "- 10" 23] by simp

section \<open>Exponentiation, inverses and membership\<close>

text \<open>
  Claim C2. For a negative exponent \<open>e\<close>, \<^verbatim>\<open>Exp(b, e)\<close> is \<^verbatim>\<open>Inv\<close> applied to
  \<open>b ^ |e| mod P\<close>; for a non-negative exponent it is \<open>b ^ e mod P\<close>.
\<close>

theorem Exp_negative_exponent:
  assumes "0 < P grp"
  shows "Exp grp b e =
           (if e < 0 then Inv grp (b ^ nat \<bar>e\<bar> mod P grp) else Inr (b ^ nat e mod P grp))"
proof (cases "e < 0")
  case True
  then have "sgn e = - 1"
    by simp
  with True assms show ?thesis
    by (simp add: Exp_def big_Exp_def andThen_def)
next
  case False
  then have "sgn e \<noteq> - 1"
    by (simp add: sgn_if)
  with False assms show ?thesis
    by (simp add: Exp_def big_Exp_def)
qed

theorem Exp_negative_exponent_witness:
  "0 < P \<lparr>P = 23, G = 2, Q = 11\<rparr> \<and>
   Exp \<lparr>P = 23, G = 2, Q = 11\<rparr> 3 (- 2) = Inv \<lparr>P = 23, G = 2, Q = 11\<rparr> 9 \<and>
   Inv \<lparr>P = 23, G = 2, Q = 11\<rparr> 9 = Inr 18 \<and>
   Exp \<lparr>P = 23, G = 2, Q = 11\<rparr> 3 2 = Inr 9"
proof -
  have "Inv \<lparr>P = 23, G = 2, Q = 11\<rparr> 9 = Inr 18"
    by code_simp
  then show ?thesis
    using Exp_negative_exponent [of "\<lparr>P = 23, G = 2, Q = 11\<rparr>" 3 "- 2"]
      Exp_negative_exponent [of "\<lparr>P = 23, G = 2, Q = 11\<rparr>" 3 2]
    by simp
qed

text \<open>
  Claim C1. For every integer \<open>x\<close>, \<^verbatim>\<open>IsElementInGroup(x)\<close> returns true if and only
  if \<open>x ^ Q\<close> is congruent to 1 modulo \<open>P\<close>, that is, \<open>x ^ Q\<close> and 1 leave the same
  remainder. The group is one with a modulus greater than 1 and a non-negative order.
\<close>

theorem IsElementInGroup_iff:
  assumes "1 < P grp" and "0 \<le> Q grp"
  shows "IsElementInGroup grp x = Inr (x ^ nat (Q grp) mod P grp = 1 mod P grp)"
  using assms by (simp add: IsElementInGroup_def Exp_nonneg andThen_def)

theorem IsElementInGroup_iff_witness:
  "1 < P \<lparr>P = 23, G = 2, Q = 11\<rparr> \<and> 0 \<le> Q \<lparr>P = 23, G = 2, Q = 11\<rparr> \<and>
   IsElementInGroup \<lparr>P = 23, G = 2, Q = 11\<rparr> 9 = Inr True \<and>
   IsElementInGroup \<lparr>P = 23, G = 2, Q = 11\<rparr> 5 = Inr False"
  using IsElementInGroup_iff [of "\<lparr>P = 23, G = 2, Q = 11\<rparr>" 9]
    IsElementInGroup_iff [of "\<lparr>P = 23, G = 2, Q = 11\<rparr>" 5]
  by simp

text \<open>
  Claim C5. For every \<open>x\<close> with \<open>gcd x P = 1\<close>, multiplying \<open>x\<close> with \<^verbatim>\<open>Inv(x)\<close> in
  the group gives 1. The modulus is greater than 1.
\<close>

theorem Mul_Inv_identity:
  assumes "1 < P grp" and "gcd x (P grp) = 1"
  shows "MulInv grp x = Inr 1"
proof -
  from assms obtain z where z: "Inv grp x = Inr z"
    and inv: "x * z mod \<bar>P grp\<bar> = 1 mod \<bar>P grp\<bar>"
    using Inv_coprime [of grp x] by auto
  from assms inv have "x * z mod P grp = 1"
    by simp
  with assms z show ?thesis
    by (simp add: MulInv_def andThen_def Mul_def big_Mod_def)
qed

theorem Mul_Inv_identity_witness:
  "1 < P \<lparr>P = 23, G = 2, Q = 11\<rparr> \<and> gcd 9 (P \<lparr>P = 23, G = 2, Q = 11\<rparr>) = 1 \<and>
   MulInv \<lparr>P = 23, G = 2, Q = 11\<rparr> 9 = Inr 1"
proof -
  have c: "gcd (9::int) 23 = 1"
    by code_simp
  then show ?thesis
    using Mul_Inv_identity [of "\<lparr>P = 23, G = 2, Q = 11\<rparr>" 9] by simp
qed

text \<open>
  An element that passes the membership test of a group of positive order is a unit
  modulo \<open>P\<close>: a common divisor of the element and \<open>P\<close> divides the remainder 1 of
  its \<open>Q\<close>-th power.
\<close>

lemma member_coprime:
  assumes q: "0 < Q grp" and mem: "IsElementInGroup grp y = Inr True"
  shows "gcd y (P grp) = 1"
proof -
  from q mem have one: "y ^ nat (Q grp) mod \<bar>P grp\<bar> = 1"
    by (simp add: IsElementInGroup_def Exp_nonneg andThen_def)
  define d where "d = gcd y (P grp)"
  have "d dvd y"
    by (simp add: d_def)
  moreover from q have "nat (Q grp) \<noteq> 0"
    by simp
  ultimately have dpow: "d dvd y ^ nat (Q grp)"
    by (simp add: dvd_power_same dvd_trans [OF _ dvd_power])
  have "d dvd \<bar>P grp\<bar>"
    by (simp add: d_def)
  with dpow have "d dvd y ^ nat (Q grp) mod \<bar>P grp\<bar>"
    by (simp add: dvd_mod)
  with one have "d dvd 1"
    by simp
  moreover have "0 \<le> d"
    by (simp add: d_def)
  ultimately show ?thesis
    by (simp add: d_def)
qed

text \<open>
  Claim C4. Whenever \<open>gcd x P \<noteq> 1\<close>, \<^verbatim>\<open>Inv(x)\<close> fails and returns no integer: it
  yields the nil pointer (a division-by-zero panic when \<open>P = 0\<close> and \<open>x < 0\<close>). This
  cannot happen for a valid group element: an element \<open>y\<close> accepted by
  \<^verbatim>\<open>IsElementInGroup\<close> in a group of positive order has \<open>gcd y P = 1\<close>.
\<close>

theorem Inv_fails_not_coprime:
  "(gcd x (P grp) \<noteq> 1 \<longrightarrow>
      Inv grp x = Inl (if P grp = 0 \<and> x < 0 then DivisionByZero else NilInt)) \<and>
   (0 < Q grp \<and> IsElementInGroup grp y = Inr True \<longrightarrow> gcd y (P grp) = 1)"
  by (simp add: Inv_def big_ModInverse_not_coprime member_coprime)

theorem Inv_fails_not_coprime_witness:
  "gcd 14 (P \<lparr>P = 7, G = 2, Q = 3\<rparr>) \<noteq> 1 \<and> Inv \<lparr>P = 7, G = 2, Q = 3\<rparr> 14 = Inl NilInt \<and>
   0 < Q \<lparr>P = 7, G = 2, Q = 3\<rparr> \<and> IsElementInGroup \<lparr>P = 7, G = 2, Q = 3\<rparr> 4 = Inr True \<and>
   gcd 4 (P \<lparr>P = 7, G = 2, Q = 3\<rparr>) = 1"
proof -
  have a: "gcd (14::int) 7 \<noteq> 1"
    by simp
  have b: "IsElementInGroup \<lparr>P = 7, G = 2, Q = 3\<rparr> 4 = Inr True"
    by (simp add: IsElementInGroup_def Exp_nonneg andThen_def)
  from a b show ?thesis
    using Inv_fails_not_coprime [of 14 "\<lparr>P = 7, G = 2, Q = 3\<rparr>" 4] by simp
qed

text \<open>
  For a base that is a unit modulo \<open>P\<close> and a non-negative exponent, the power and
  the power to the negated exponent are inverse to each other.
\<close>

lemma MulExpExp_nonneg:
  assumes p: "1 < P grp" and cop: "gcd b (P grp) = 1" and e: "0 \<le> e"
  shows "Exp grp b e = Inr (b ^ nat e mod P grp) \<and>
         (\<exists>v. Exp grp b (- e) = Inr v \<and> (b ^ nat e mod P grp) * v mod P grp = 1)"
proof (cases "e = 0")
  case True
  with p show ?thesis
    by (simp add: Exp_nonneg)
next
  case False
  with e have neg: "- e < 0"
    by simp
  have "coprime b (P grp)"
    using cop by (simp add: coprime_iff_gcd_eq_1)
  then have "coprime (b ^ nat e) (P grp)"
    by simp
  with p have "coprime (b ^ nat e mod P grp) (P grp)"
    by simp
  then have "gcd (b ^ nat e mod P grp) (P grp) = 1"
    by (simp add: coprime_iff_gcd_eq_1)
  with p obtain z where z: "Inv grp (b ^ nat e mod P grp) = Inr z"
    and inv: "(b ^ nat e mod P grp) * z mod \<bar>P grp\<bar> = 1 mod \<bar>P grp\<bar>"
    using Inv_coprime [of grp "b ^ nat e mod P grp"] by auto
  from p e z have "Exp grp b (- e) = Inr z"
    using Exp_neg [OF neg, of grp b] by simp
  moreover from p inv have "(b ^ nat e mod P grp) * z mod P grp = 1"
    by simp
  ultimately show ?thesis
    using p e by (simp add: Exp_nonneg)
qed

text \<open>
  Claim C3 quantifies over all bases. In the group with \<open>P = 7\<close>, \<open>G = 2\<close>, \<open>Q = 3\<close>
  the base 0 and the exponent 1 refute it: \<^verbatim>\<open>Exp(0, 1)\<close> is 0, \<^verbatim>\<open>Exp(0, -1)\<close> is the
  inverse of 0, which does not exist, and the product is never formed.
\<close>

theorem MulExpExp_all_bases_counterexample:
  "MulExpExp \<lparr>P = 7, G = 2, Q = 3\<rparr> 0 1 = Inl NilInt \<and>
   MulExpExp \<lparr>P = 7, G = 2, Q = 3\<rparr> 0 1 \<noteq> Inr 1"
proof -
  have "MulExpExp \<lparr>P = 7, G = 2, Q = 3\<rparr> 0 1 = Inl NilInt"
    by code_simp
  then show ?thesis
    by simp
qed

text \<open>
  Claim C3, amended. In a group with modulus \<open>P > 1\<close>, for every base \<open>b\<close> with
  \<open>gcd b P = 1\<close> and every exponent \<open>e\<close>, negative or not,
  \<^verbatim>\<open>Mul(Exp(b, e), Exp(b, -e))\<close> returns 1.
\<close>

theorem MulExpExp_coprime:
  assumes p: "1 < P grp" and cop: "gcd b (P grp) = 1"
  shows "MulExpExp grp b e = Inr 1"
proof (cases "0 \<le> e")
  case True
  from MulExpExp_nonneg [OF p cop True] obtain v
    where "Exp grp b e = Inr (b ^ nat e mod P grp)" "Exp grp b (- e) = Inr v"
      "(b ^ nat e mod P grp) * v mod P grp = 1"
    by auto
  with p show ?thesis
    by (simp add: MulExpExp_def andThen_def Mul_def big_Mod_def)
next
  case False
  then have "0 \<le> - e"
    by simp
  from MulExpExp_nonneg [OF p cop this] obtain v
    where "Exp grp b (- e) = Inr (b ^ nat (- e) mod P grp)" "Exp grp b e = Inr v"
      "(b ^ nat (- e) mod P grp) * v mod P grp = 1"
    by auto
  with p show ?thesis
    by (simp add: MulExpExp_def andThen_def Mul_def big_Mod_def mult.commute)
qed

theorem MulExpExp_coprime_witness:
  "1 < P \<lparr>P = 7, G = 2, Q = 3\<rparr> \<and> gcd 3 (P \<lparr>P = 7, G = 2, Q = 3\<rparr>) = 1 \<and>
   MulExpExp \<lparr>P = 7, G = 2, Q = 3\<rparr> 3 (- 4) = Inr 1"
proof -
  have "gcd (3::int) 7 = 1"
    by code_simp
  then show ?thesis
    using MulExpExp_coprime [of "\<lparr>P = 7, G = 2, Q = 3\<rparr>" 3 "- 4"] by simp
qed

section \<open>Random elements\<close>

text \<open>
  Claim C6. With a drawn exponent \<open>r\<close> in \<open>[0, Q)\<close>, \<^verbatim>\<open>GetRandomElement\<close> returns
  \<open>G ^ r mod P\<close>; when the generator satisfies \<open>G ^ Q mod P = 1\<close>, the returned value
  passes \<^verbatim>\<open>IsElementInGroup\<close>, so it lies in the subgroup of order \<open>Q\<close>.
\<close>

theorem GetRandomElement_in_group:
  assumes r: "0 \<le> r" "r < Q grp" and p: "0 < P grp"
  shows "GetRandomElement grp r = Inr (G grp ^ nat r mod P grp) \<and>
         (G grp ^ nat (Q grp) mod P grp = 1 \<longrightarrow>
            IsElementInGroup grp (G grp ^ nat r mod P grp) = Inr True)"
proof -
  have el: "GetRandomElement grp r = Inr (G grp ^ nat r mod P grp)"
    using r p by (simp add: GetRandomElement_def Exp_nonneg)
  have "IsElementInGroup grp (G grp ^ nat r mod P grp) = Inr True"
    if gen: "G grp ^ nat (Q grp) mod P grp = 1"
  proof -
    have "(G grp ^ nat r mod P grp) ^ nat (Q grp) mod P grp
        = (G grp ^ nat r) ^ nat (Q grp) mod P grp"
      by (simp add: power_mod)
    also have "\<dots> = (G grp ^ nat (Q grp)) ^ nat r mod P grp"
      by (simp add: power_mult [symmetric] mult.commute)
    also have "\<dots> = (G grp ^ nat (Q grp) mod P grp) ^ nat r mod P grp"
      by (simp add: power_mod)
    also have "\<dots> = 1 mod P grp"
      by (simp add: gen)
    also have "\<dots> = 1"
      using gen by (metis mod_mod_trivial)
    finally have "(G grp ^ nat r mod P grp) ^ nat (Q grp) mod P grp = 1" .
    with r p show ?thesis
      by (simp add: IsElementInGroup_def Exp_nonneg andThen_def)
  qed
  with el show ?thesis
    by simp
qed

theorem GetRandomElement_in_group_witness:
  "(0::int) \<le> 5 \<and> 5 < Q \<lparr>P = 23, G = 2, Q = 11\<rparr> \<and> 0 < P \<lparr>P = 23, G = 2, Q = 11\<rparr> \<and>
   G \<lparr>P = 23, G = 2, Q = 11\<rparr> ^ nat (Q \<lparr>P = 23, G = 2, Q = 11\<rparr>) mod P \<lparr>P = 23, G = 2, Q = 11\<rparr> = 1 \<and>
   GetRandomElement \<lparr>P = 23, G = 2, Q = 11\<rparr> 5 = Inr 9 \<and>
   IsElementInGroup \<lparr>P = 23, G = 2, Q = 11\<rparr> 9 = Inr True"
  using GetRandomElement_in_group [of 5 "\<lparr>P = 23, G = 2, Q = 11\<rparr>"] by simp

end
